theory Spec2Isabelle
  imports Main "HOL-Library.Word" "HOL-Library.Signed_Division"
begin

section \<open>XFileUnpacker command line tool: progress rendering and orchestration\<close>

text \<open>
  The development embeds \<^verbatim>\<open>src/cli/main_cli.cpp\<close>: the progress callback
  \<^verbatim>\<open>progressCallback\<close>, its self test \<^verbatim>\<open>testProgressCallback\<close> and
  \<^verbatim>\<open>main\<close>. The source holds two revisions of the file, one after the other;
  the embedding follows the later one, which has the progress callback and the
  \<^verbatim>\<open>--test-progress\<close> option. Everything the program asks of Qt and of the
  XBinary / XFormats libraries (the file system, the format handler, the clock) is an
  explicit input of the model; everything it does to the outside is an event of a trace.
\<close>

subsection \<open>Machine integers and text\<close>

type_synonym qint64 = "64 word"
type_synonym qint32 = "32 word"

datatype error = DivisionByZero | DivisionOverflow

text \<open>
  C++ division of two \<^verbatim>\<open>qint64\<close>: the quotient is truncated towards zero; a zero
  divisor and \<^verbatim>\<open>INT64_MIN / -1\<close> trap.
\<close>

definition qint64_div :: "qint64 \<Rightarrow> qint64 \<Rightarrow> error + qint64" where
  "qint64_div a b =
     (if b = 0 then Inl DivisionByZero
      else if sint a = - (2 ^ 63) \<and> sint b = - 1 then Inl DivisionOverflow
      else Inr (word_of_int (sint a sdiv sint b)))"

text \<open>Decimal digits of a non-negative integer, most significant first.\<close>

definition digit :: "int \<Rightarrow> char" where
  "digit d =
     (if d = 0 then CHR ''0'' else if d = 1 then CHR ''1'' else if d = 2 then CHR ''2''
      else if d = 3 then CHR ''3'' else if d = 4 then CHR ''4'' else if d = 5 then CHR ''5''
      else if d = 6 then CHR ''6'' else if d = 7 then CHR ''7'' else if d = 8 then CHR ''8''
      else CHR ''9'')"

function decimal :: "int \<Rightarrow> string" where
  "decimal n =
     (if n < 10 then [digit n] else decimal (n div 10) @ [digit (n mod 10)])"
  by pat_completeness auto
termination
  by (relation "measure nat") auto

declare decimal.simps [simp del]

text \<open>\<^verbatim>\<open>QString::number\<close> and \<^verbatim>\<open>QString::arg\<close> of a signed integer, base 10.\<close>

definition number :: "int \<Rightarrow> string" where
  "number i = (if i < 0 then CHR ''-'' # decimal (- i) else decimal i)"

text \<open>\<^verbatim>\<open>QStringList::join\<close>.\<close>

fun join :: "string \<Rightarrow> string list \<Rightarrow> string" where
  "join sep [] = []"
| "join sep [x] = x"
| "join sep (x # y # ys) = x @ sep @ join sep (y # ys)"

subsection \<open>The progress table\<close>

text \<open>
  \<^verbatim>\<open>XBinary::PDRECORD\<close> and \<^verbatim>\<open>XBinary::PDSTRUCT\<close> are declared by the XBinary
  library; the fields below are the ones \<^verbatim>\<open>main_cli.cpp\<close> reads and writes. The
  array \<^verbatim>\<open>_pdRecord[N_NUMBER_PDRECORDS]\<close> is a list, and \<^verbatim>\<open>N_NUMBER_PDRECORDS\<close>
  is its length.
\<close>

record PDRECORD =
  nCurrent :: qint64
  nTotal :: qint64
  sStatus :: string
  bIsValid :: bool

record PDSTRUCT =
  pdRecord :: "PDRECORD list"
  nLastCallbackTime :: qint64

subsection \<open>progressCallback\<close>

text \<open>
  The loop of \<^verbatim>\<open>progressCallback\<close> over the slots, in index order, with its three
  accumulators \<^verbatim>\<open>nTotalCurrent\<close>, \<^verbatim>\<open>nTotalAll\<close> and \<^verbatim>\<open>listStatuses\<close>.
  The additions are 64-bit and wrap.
\<close>

fun sumRecords ::
  "PDRECORD list \<Rightarrow> qint64 \<Rightarrow> qint64 \<Rightarrow> string list \<Rightarrow> qint64 \<times> qint64 \<times> string list" where
  "sumRecords [] nTotalCurrent nTotalAll listStatuses =
     (nTotalCurrent, nTotalAll, listStatuses)"
| "sumRecords (r # rs) nTotalCurrent nTotalAll listStatuses =
     (if bIsValid r then
        sumRecords rs (nTotalCurrent + nCurrent r) (nTotalAll + nTotal r)
          (if sStatus r \<noteq> [] then listStatuses @ [sStatus r] else listStatuses)
      else sumRecords rs nTotalCurrent nTotalAll listStatuses)"

text \<open>
  \<^verbatim>\<open>qint32 nPercent = (nTotalCurrent * 100) / nTotalAll\<close>: a 64-bit product, a
  64-bit truncating division, and the narrowing of the quotient to 32 bits.
\<close>

definition nPercent :: "qint64 \<Rightarrow> qint64 \<Rightarrow> error + qint32" where
  "nPercent nTotalCurrent nTotalAll =
     (case qint64_div (nTotalCurrent * 100) nTotalAll of
        Inl e \<Rightarrow> Inl e
      | Inr q \<Rightarrow> Inr (ucast q))"

text \<open>
  The text written to standard output for given percentage, sums and joined status:
  \<^verbatim>\<open>"\rProgress: %1% (%2/%3)"\<close>, then \<^verbatim>\<open>" - "\<close> and the status when it is not
  empty.
\<close>

definition progressText :: "qint32 \<Rightarrow> qint64 \<Rightarrow> qint64 \<Rightarrow> string \<Rightarrow> string" where
  "progressText p nTotalCurrent nTotalAll sStatus' =
     CHR 0x0D # ''Progress: '' @ number (sint p) @ ''% ('' @ number (sint nTotalCurrent)
       @ ''/'' @ number (sint nTotalAll) @ '')''
       @ (if sStatus' \<noteq> [] then '' - '' @ sStatus' else [])"

text \<open>
  \<^verbatim>\<open>progressCallback\<close>. The argument is the pointer \<^verbatim>\<open>pPdStruct\<close>
  (\<open>None\<close> for a null pointer); the result is what is written to standard output
  (\<open>None\<close> when nothing is written), or the trap of the division.
\<close>

definition progressCallback :: "PDSTRUCT option \<Rightarrow> error + string option" where
  "progressCallback pPdStruct =
     (case pPdStruct of
        None \<Rightarrow> Inr None
      | Some pd \<Rightarrow>
          (case sumRecords (pdRecord pd) 0 0 [] of
             (nTotalCurrent, nTotalAll, listStatuses) \<Rightarrow>
               if 0 <s nTotalAll then
                 (case nPercent nTotalCurrent nTotalAll of
                    Inl e \<Rightarrow> Inl e
                  | Inr p \<Rightarrow>
                      Inr (Some (progressText p nTotalCurrent nTotalAll
                                   (join ''/'' listStatuses))))
               else Inr None))"

subsection \<open>The aggregation as the specification words it\<close>

text \<open>
  The specification describes the aggregation over the valid slots: the sums of
  \<open>current\<close> and \<open>total\<close> as mathematical integers, and the non-empty status
  strings in slot order. These definitions follow its words; \<open>sumRecords_sums\<close>
  relates them to the loop of the code.
\<close>

definition validSlots :: "PDRECORD list \<Rightarrow> PDRECORD list" where
  "validSlots rs = filter bIsValid rs"

definition currentSum :: "PDRECORD list \<Rightarrow> int" where
  "currentSum rs = sum_list (map (\<lambda>r. sint (nCurrent r)) (validSlots rs))"

definition totalSum :: "PDRECORD list \<Rightarrow> int" where
  "totalSum rs = sum_list (map (\<lambda>r. sint (nTotal r)) (validSlots rs))"

definition statusList :: "PDRECORD list \<Rightarrow> string list" where
  "statusList rs = filter (\<lambda>s. s \<noteq> []) (map sStatus (validSlots rs))"

text \<open>
  The status text as the specification words it: the collected strings in order, with
  the separator \<open>/\<close> before every string but the first. It is written without
  \<open>join\<close>, so that it can be compared with what the code prints.
\<close>

definition joinedStatus :: "PDRECORD list \<Rightarrow> string" where
  "joinedStatus rs =
     (case statusList rs of
        [] \<Rightarrow> []
      | s # ss \<Rightarrow> s @ concat (map (\<lambda>x. CHR ''/'' # x) ss))"

subsection \<open>Example progress tables\<close>

text \<open>
  Two stages: one of unknown size that has read 5 units, one complete at 10 of 10. Each
  slot respects \<open>current \<le> total\<close> where \<open>total > 0\<close>.
\<close>

definition overshoot :: PDSTRUCT where
  "overshoot =
     \<lparr>pdRecord =
        [\<lparr>nCurrent = 5, nTotal = 0, sStatus = ''scan'', bIsValid = True\<rparr>,
         \<lparr>nCurrent = 10, nTotal = 10, sStatus = [], bIsValid = True\<rparr>],
      nLastCallbackTime = 0\<rparr>"

text \<open>Only stages of unknown size, beside a released slot with stale counters.\<close>

definition indeterminate :: PDSTRUCT where
  "indeterminate =
     \<lparr>pdRecord =
        [\<lparr>nCurrent = 7, nTotal = 0, sStatus = ''scan'', bIsValid = True\<rparr>,
         \<lparr>nCurrent = 3, nTotal = 9, sStatus = ''old'', bIsValid = False\<rparr>,
         \<lparr>nCurrent = 2, nTotal = 0, sStatus = ''read'', bIsValid = True\<rparr>],
      nLastCallbackTime = 0\<rparr>"

text \<open>Three claimed slots and a released one between them.\<close>

definition halfway :: PDSTRUCT where
  "halfway =
     \<lparr>pdRecord =
        [\<lparr>nCurrent = 1, nTotal = 4, sStatus = ''list'', bIsValid = True\<rparr>,
         \<lparr>nCurrent = 90, nTotal = 100, sStatus = ''stale'', bIsValid = False\<rparr>,
         \<lparr>nCurrent = 2, nTotal = 2, sStatus = [], bIsValid = True\<rparr>,
         \<lparr>nCurrent = 0, nTotal = 2, sStatus = ''unpack'', bIsValid = True\<rparr>],
      nLastCallbackTime = 0\<rparr>"

section \<open>The command line program\<close>

subsection \<open>The outside world\<close>

text \<open>
  What the program does to its environment, in program order: text on the two standard
  streams, calls that change the file system, calls into the format library, and the end
  of the process inside \<^verbatim>\<open>QCommandLineParser::showHelp\<close>. \<open>Trap\<close> is a
  hardware trap inside the callback.
\<close>

datatype event =
    Stdout string
  | Stderr string
  | ShowHelp int
  | Msleep nat
  | Mkpath string
  | RemoveRecursively string
  | UnpackDeviceToFolder string
  | PrintModel
  | DeleteBinary
  | FileClose
  | Trap error

text \<open>
  The command line after \<^verbatim>\<open>parser.process(app)\<close> has returned: which options are
  set, the value of \<^verbatim>\<open>--output\<close> when it was given, and the positional arguments.
  Runs that end inside \<^verbatim>\<open>process\<close> (\<^verbatim>\<open>--help\<close>, \<^verbatim>\<open>--version\<close>, an
  unknown option) never reach the code below.
\<close>

record cmdline =
  testProgressSet :: bool
  listSet :: bool
  testSet :: bool
  extractSet :: bool
  outputValue :: "string option"
  positionalArguments :: "string list"

text \<open>\<^verbatim>\<open>QCommandLineParser::value\<close>: the empty string when the option is not set.\<close>

definition parserValue :: "string option \<Rightarrow> string" where
  "parserValue v = (case v of None \<Rightarrow> [] | Some x \<Rightarrow> x)"

text \<open>
  One entry of the list that \<^verbatim>\<open>XFormats::getArchiveRecords\<close> returns; the program
  only counts the entries.
\<close>

record ARCHIVERECORD =
  sOriginalName :: string
  nStreamSize :: qint64

text \<open>
  The answers of Qt and of the format library. \<open>fi_\<close> fields are the queries on
  \<^verbatim>\<open>QFileInfo(sInputFile)\<close>; \<open>file_open\<close> is \<^verbatim>\<open>QFile::open\<close>;
  \<open>fileTypeString\<close> is the detected type as \<^verbatim>\<open>fileTypeIdToString\<close> prints it;
  \<open>getClass\<close> tells whether \<^verbatim>\<open>XFormats::getClass\<close> returned an object;
  \<open>getArchiveRecords\<close> is the enumerated list. \<open>enumProgress\<close> and
  \<open>unpackProgress\<close> are the states of the progress table at which the library invokes
  \<^verbatim>\<open>pdStruct.pCallback\<close> during enumeration and during unpacking into a folder;
  \<open>unpackDeviceToFolder\<close> is the result of unpacking into a folder and
  \<open>entryInfoList\<close> the plain files found at the top of a folder afterwards.
  \<^verbatim>\<open>QList::count\<close> is read as a mathematical integer.
\<close>

record world =
  fi_exists :: "string \<Rightarrow> bool"
  fi_isFile :: "string \<Rightarrow> bool"
  fi_absoluteFilePath :: "string \<Rightarrow> string"
  fi_absolutePath :: "string \<Rightarrow> string"
  fi_completeBaseName :: "string \<Rightarrow> string"
  fi_size :: "string \<Rightarrow> int"
  file_open :: "string \<Rightarrow> bool"
  fileTypeString :: string
  getClass :: bool
  getArchiveRecords :: "ARCHIVERECORD list"
  enumProgress :: "PDSTRUCT list"
  createPdStruct :: PDSTRUCT
  tempPath :: string
  separator :: char
  currentMSecsSinceEpoch :: int
  unpackDeviceToFolder :: "string \<Rightarrow> bool"
  unpackProgress :: "string \<Rightarrow> PDSTRUCT list"
  entryInfoList :: "string \<Rightarrow> string list"

subsection \<open>printError, printInfo and the callback as the library invokes it\<close>

definition printError :: "string \<Rightarrow> event list" where
  "printError sMessage = [Stderr (''Error: '' @ sMessage @ [CHR 0x0A])]"

definition printInfo :: "string \<Rightarrow> event list" where
  "printInfo sMessage = [Stdout (sMessage @ [CHR 0x0A])]"

definition invokeCallback :: "PDSTRUCT \<Rightarrow> event list" where
  "invokeCallback pd =
     (case progressCallback (Some pd) of
        Inl e \<Rightarrow> [Trap e]
      | Inr None \<Rightarrow> []
      | Inr (Some sText) \<Rightarrow> [Stdout sText])"

text \<open>
  A library call that reports progress invokes the callback once for each state of the
  table that the world lists for it.
\<close>

definition callbackEvents :: "PDSTRUCT list \<Rightarrow> event list" where
  "callbackEvents pds = concat (map invokeCallback pds)"

subsection \<open>testProgressCallback\<close>

text \<open>
  Modelled from the spec: \<^verbatim>\<open>XBinary::setPdStructInit\<close>, which is code of the XBinary
  library. The specification's \<open>beginStage\<close> claims the slot: it becomes valid, its
  current counter is 0 and its total the given one. An index outside the table changes
  nothing.
\<close>

definition setPdStructInit :: "PDSTRUCT \<Rightarrow> nat \<Rightarrow> qint64 \<Rightarrow> PDSTRUCT" where
  "setPdStructInit pd nIndex nTotal' =
     (if nIndex < length (pdRecord pd) then
        pd\<lparr>pdRecord := (pdRecord pd)
              [nIndex := (pdRecord pd ! nIndex)
                           \<lparr>nCurrent := 0, nTotal := nTotal', bIsValid := True\<rparr>]\<rparr>
      else pd)"

text \<open>An assignment to a field of \<^verbatim>\<open>pdStruct._pdRecord[0]\<close>.\<close>

definition updRecord0 :: "(PDRECORD \<Rightarrow> PDRECORD) \<Rightarrow> PDSTRUCT \<Rightarrow> PDSTRUCT" where
  "updRecord0 f pd =
     (case pdRecord pd of [] \<Rightarrow> pd | r # rs \<Rightarrow> pd\<lparr>pdRecord := f r # rs\<rparr>)"

text \<open>The loop \<^verbatim>\<open>for (qint32 i = 0; i <= 100; i += 5)\<close>.\<close>

function testProgressLoop :: "int \<Rightarrow> PDSTRUCT \<Rightarrow> event list" where
  "testProgressLoop i pd =
     (if i \<le> 100 then
        (let pd' = updRecord0 (\<lambda>r. r\<lparr>nCurrent := word_of_int i\<rparr>) pd
         in invokeCallback pd' @ [Msleep 100] @ testProgressLoop (i + 5) pd')
      else [])"
  by pat_completeness auto
termination
  by (relation "measure (\<lambda>(i, pd). nat (101 - i))") auto

declare testProgressLoop.simps [simp del]

definition testProgressCallback :: "world \<Rightarrow> event list" where
  "testProgressCallback w =
     printInfo ''Testing progress callback...''
     @ (let pdStruct = (createPdStruct w)\<lparr>nLastCallbackTime := 0\<rparr>;
            pdStruct = setPdStructInit pdStruct 0 100;
            pdStruct = updRecord0 (\<lambda>r. r\<lparr>sStatus := ''Processing files''\<rparr>) pdStruct
        in testProgressLoop 0 pdStruct)
     @ [Stdout [CHR 0x0A]]
     @ printInfo ''Progress callback test completed''"

subsection \<open>The three actions of main\<close>

text \<open>
  Each action is the body of one branch of the \<^verbatim>\<open>if (bListOnly) ... else if (bTest)
  ... else if (bExtract)\<close> chain. It yields its events and, when it ends the program
  itself, the exit code of that \<^verbatim>\<open>return\<close>.
\<close>

definition listAction :: "event list \<times> int option" where
  "listAction = ([PrintModel], None)"

text \<open>
  The name of the temporary directory of the test action:
  \<^verbatim>\<open>QDir::tempPath() + QDir::separator() + "xfileunpacker_test_" +
  QString::number(QDateTime::currentMSecsSinceEpoch())\<close>.
\<close>

definition sTempDir :: "world \<Rightarrow> string" where
  "sTempDir w = tempPath w @ [separator w] @ ''xfileunpacker_test_''
                  @ number (currentMSecsSinceEpoch w)"

definition testAction :: "world \<Rightarrow> event list \<times> int option" where
  "testAction w =
     (let bTestResult = unpackDeviceToFolder w (sTempDir w);
          nExtractedFiles =
            (if bTestResult then int (length (entryInfoList w (sTempDir w))) else 0);
          evs = printInfo ''Testing archive integrity...''
                @ [Mkpath (sTempDir w)]
                @ printInfo (''Extracting to temporary location: '' @ sTempDir w)
                @ [UnpackDeviceToFolder (sTempDir w)]
                @ callbackEvents (unpackProgress w (sTempDir w))
                @ [RemoveRecursively (sTempDir w)]
      in if bTestResult \<and> nExtractedFiles > 0 then
           (evs @ printInfo (''Test PASSED: Successfully extracted ''
                              @ number nExtractedFiles @ '' file(s)''), None)
         else
           (evs @ printError ''Test FAILED: Could not extract archive''
                @ [DeleteBinary, FileClose], Some 1))"

text \<open>
  The destination of the extract action. The first argument of \<open>sExtractPath\<close> is
  the value of \<^verbatim>\<open>sOutputDir\<close> as the parser gave it; an empty value is replaced
  by \<^verbatim>\<open>fileInfo.absolutePath()\<close>, and the path is
  \<^verbatim>\<open>sOutputDir + QDir::separator() + fileInfo.completeBaseName()\<close>.
\<close>

definition sOutputDir :: "world \<Rightarrow> string \<Rightarrow> string \<Rightarrow> string" where
  "sOutputDir w sInputFile sOutputDir0 =
     (if sOutputDir0 = [] then fi_absolutePath w sInputFile else sOutputDir0)"

definition sExtractPath :: "world \<Rightarrow> string \<Rightarrow> string \<Rightarrow> string" where
  "sExtractPath w sInputFile sOutputDir0 =
     sOutputDir w sInputFile sOutputDir0 @ [separator w] @ fi_completeBaseName w sInputFile"

definition extractAction :: "world \<Rightarrow> string \<Rightarrow> string \<Rightarrow> event list \<times> int option" where
  "extractAction w sInputFile sOutputDir0 =
     (let bUnpackResult =
            unpackDeviceToFolder w (sExtractPath w sInputFile sOutputDir0);
          evs = printInfo (''Extracting to: '' @ sOutputDir w sInputFile sOutputDir0)
                @ [Mkpath (sExtractPath w sInputFile sOutputDir0)]
                @ printInfo ''Unpacking archive...''
                @ [UnpackDeviceToFolder (sExtractPath w sInputFile sOutputDir0)]
                @ callbackEvents (unpackProgress w (sExtractPath w sInputFile sOutputDir0))
      in if bUnpackResult then
           (evs @ printInfo (CHR 0x0A # ''Extracted ''
                              @ number (int (length (getArchiveRecords w)))
                              @ '' file(s) successfully''), None)
         else
           (evs @ printError ''Failed to extract archive''
                @ [DeleteBinary, FileClose], Some 1))"

subsection \<open>main\<close>

text \<open>The result of \<^verbatim>\<open>main\<close>: the exit code and the events of the run.\<close>

definition main :: "cmdline \<Rightarrow> world \<Rightarrow> int \<times> event list" where
  "main args w =
     (if testProgressSet args then (0, testProgressCallback w)
      else
        (case positionalArguments args of
           [] \<Rightarrow> (1, printError ''No input file specified'' @ [ShowHelp 1])
         | sInputFile # _ \<Rightarrow>
             if \<not> fi_exists w sInputFile then
               (1, printError (''File not found: '' @ sInputFile))
             else if \<not> fi_isFile w sInputFile then
               (1, printError (''Not a file: '' @ sInputFile))
             else
               (let bListOnly = listSet args;
                    bTest = testSet args;
                    bExtract =
                      (if \<not> listSet args \<and> \<not> testSet args \<and> \<not> extractSet args then True
                       else extractSet args);
                    sOutputDir0 = parserValue (outputValue args);
                    ev1 = printInfo (''Processing file: '' @ fi_absoluteFilePath w sInputFile)
                          @ printInfo (''File size: '' @ number (fi_size w sInputFile)
                                        @ '' bytes'')
                in if \<not> file_open w sInputFile then
                     (1, ev1 @ printError (''Cannot open file: '' @ sInputFile))
                   else
                     (let ev2 = ev1 @ printInfo (''File type: '' @ fileTypeString w)
                      in if \<not> getClass w then
                           (1, ev2 @ printError (''Not an archive or unsupported format: ''
                                                  @ fileTypeString w)
                               @ [FileClose])
                         else
                           (let listRecords = getArchiveRecords w;
                                ev3 = ev2 @ callbackEvents (enumProgress w)
                                      @ [Stdout [CHR 0x0A]]
                                      @ printInfo (''Number of records: ''
                                                    @ number (int (length listRecords)))
                            in if listRecords = [] then
                                 (1, ev3 @ printError ''Archive contains no records''
                                     @ [DeleteBinary, FileClose])
                               else
                                 (case (if bListOnly then listAction
                                        else if bTest then testAction w
                                        else if bExtract then
                                          extractAction w sInputFile sOutputDir0
                                        else ([], None)) of
                                    (ev4, Some code) \<Rightarrow> (code, ev3 @ ev4)
                                  | (ev4, None) \<Rightarrow>
                                      (0, ev3 @ ev4 @ [DeleteBinary, FileClose]
                                          @ printInfo
                                              ''Operation completed successfully'')))))))"

subsection \<open>Observations on a run\<close>

text \<open>
  The events of a run from its start to the end of the enumeration of the records: the
  three information lines, the progress lines of the enumeration, the line break that
  ends the progress line, and the number of records.
\<close>

definition enumEvents :: "world \<Rightarrow> string \<Rightarrow> event list" where
  "enumEvents w sInputFile =
     printInfo (''Processing file: '' @ fi_absoluteFilePath w sInputFile)
     @ printInfo (''File size: '' @ number (fi_size w sInputFile) @ '' bytes'')
     @ printInfo (''File type: '' @ fileTypeString w)
     @ callbackEvents (enumProgress w)
     @ [Stdout [CHR 0x0A]]
     @ printInfo (''Number of records: '' @ number (int (length (getArchiveRecords w))))"

text \<open>
  Which action ran is read off the trace: the list action is the only caller of
  \<^verbatim>\<open>XOptions::printModel\<close>, the test action the only one that prints
  \<open>Testing archive integrity...\<close>, the extract action the only one that prints
  \<open>Unpacking archive...\<close>.
\<close>

definition ranList :: "event list \<Rightarrow> bool" where
  "ranList t = (PrintModel \<in> set t)"

definition ranTest :: "event list \<Rightarrow> bool" where
  "ranTest t = (Stdout (''Testing archive integrity...'' @ [CHR 0x0A]) \<in> set t)"

definition ranExtract :: "event list \<Rightarrow> bool" where
  "ranExtract t = (Stdout (''Unpacking archive...'' @ [CHR 0x0A]) \<in> set t)"

fun startsWith :: "string \<Rightarrow> string \<Rightarrow> bool" where
  "startsWith [] s = True"
| "startsWith (c # p) [] = False"
| "startsWith (c # p) (d # s) = (c = d \<and> startsWith p s)"

fun isPassedLine :: "event \<Rightarrow> bool" where
  "isPassedLine (Stdout s) = startsWith ''Test PASSED'' s"
| "isPassedLine _ = False"

definition reportsPassed :: "event list \<Rightarrow> bool" where
  "reportsPassed t = list_ex isPassedLine t"

definition reportsFailed :: "event list \<Rightarrow> bool" where
  "reportsFailed t =
     (Stderr (''Error: Test FAILED: Could not extract archive'' @ [CHR 0x0A]) \<in> set t)"

fun mkpathOf :: "event \<Rightarrow> string list" where
  "mkpathOf (Mkpath d) = [d]"
| "mkpathOf _ = []"

definition directoriesCreated :: "event list \<Rightarrow> string list" where
  "directoriesCreated t = concat (map mkpathOf t)"

fun stderrOf :: "event \<Rightarrow> string list" where
  "stderrOf (Stderr s) = [s]"
| "stderrOf _ = []"

definition standardError :: "event list \<Rightarrow> string list" where
  "standardError t = concat (map stderrOf t)"

text \<open>A progress line starts with a carriage return.\<close>

fun isProgressLine :: "event \<Rightarrow> bool" where
  "isProgressLine (Stdout (c # s)) = (c = CHR 0x0D)"
| "isProgressLine _ = False"

text \<open>
  A run reaches the dispatch on the action options when \<open>--test-progress\<close> is not
  set, the first positional argument names an existing regular file that opens, a
  handler is obtained and the enumeration is not empty.
\<close>

definition reachesDispatch :: "cmdline \<Rightarrow> world \<Rightarrow> bool" where
  "reachesDispatch args w =
     (\<not> testProgressSet args
      \<and> (case positionalArguments args of
            [] \<Rightarrow> False
          | sInputFile # _ \<Rightarrow>
              fi_exists w sInputFile \<and> fi_isFile w sInputFile \<and> file_open w sInputFile)
      \<and> getClass w \<and> getArchiveRecords w \<noteq> [])"

text \<open>The verdict of the test action: the unpacking succeeded and left a file.\<close>

definition testPasses :: "world \<Rightarrow> bool" where
  "testPasses w =
     (unpackDeviceToFolder w (sTempDir w) \<and> entryInfoList w (sTempDir w) \<noteq> [])"

subsection \<open>The throttle of the callback\<close>

text \<open>
  Modelled from the spec: the rate limit on invocations of the callback. It belongs to
  the aggregation path of the XBinary library (\<open>advance\<close> in the specification);
  \<^verbatim>\<open>main_cli.cpp\<close> only installs the callback and sets
  \<^verbatim>\<open>pdStruct.nLastCallbackTime = 0\<close>. The specification says: if
  \<open>now - lastCallbackTime < minInterval\<close>, skip the invocation, except for the final
  100% update, which is never skipped; otherwise invoke the callback and update
  \<open>lastCallbackTime\<close>.

  A progress update carries the time of the clock in milliseconds and whether it is the
  final update at 100%. \<open>throttle\<close> runs a sequence of updates from a given
  \<open>lastCallbackTime\<close> and yields the updates for which the callback is invoked.
\<close>

record progressUpdate =
  updNow :: int
  updFinal :: bool

fun throttle :: "int \<Rightarrow> int \<Rightarrow> progressUpdate list \<Rightarrow> progressUpdate list" where
  "throttle minInterval lastCallbackTime [] = []"
| "throttle minInterval lastCallbackTime (u # us) =
     (if updNow u - lastCallbackTime < minInterval \<and> \<not> updFinal u then
        throttle minInterval lastCallbackTime us
      else u # throttle minInterval (updNow u) us)"

text \<open>The invocations of a run: \<^verbatim>\<open>main\<close> starts from \<open>lastCallbackTime = 0\<close>.\<close>

definition invocations :: "int \<Rightarrow> progressUpdate list \<Rightarrow> progressUpdate list" where
  "invocations minInterval us = throttle minInterval 0 us"

text \<open>
  The invocations that fall into the one-second window starting at \<open>t\<close>, and among
  them those of updates that are not final.
\<close>

definition inWindow :: "int \<Rightarrow> progressUpdate list \<Rightarrow> progressUpdate list" where
  "inWindow t us = filter (\<lambda>u. t \<le> updNow u \<and> updNow u < t + 1000) us"

definition notFinal :: "progressUpdate list \<Rightarrow> progressUpdate list" where
  "notFinal us = filter (\<lambda>u. \<not> updFinal u) us"

text \<open>
  The number of invocations of updates that are not final in the window starting at
  \<open>t\<close>, and the number of points at least \<open>m\<close> apart that fit between \<open>a\<close>
  and the last millisecond \<open>t + 999\<close> of the window.
\<close>

definition countIn :: "int \<Rightarrow> progressUpdate list \<Rightarrow> int" where
  "countIn t us = int (length (notFinal (inWindow t us)))"

definition room :: "int \<Rightarrow> int \<Rightarrow> int \<Rightarrow> int" where
  "room m t a = (if t + 999 < a then 0 else (t + 999 - a) div m + 1)"

text \<open>
  Four updates 300 ms apart, and the final update 50 ms after the last of them, all
  inside the second that starts at 1000 ms.
\<close>

definition burst :: "progressUpdate list" where
  "burst =
     [\<lparr>updNow = 1000, updFinal = False\<rparr>, \<lparr>updNow = 1300, updFinal = False\<rparr>,
      \<lparr>updNow = 1600, updFinal = False\<rparr>, \<lparr>updNow = 1900, updFinal = False\<rparr>,
      \<lparr>updNow = 1950, updFinal = True\<rparr>]"

subsection \<open>An example world\<close>

text \<open>
  The archive \<open>/a/b/archive.zip\<close> with three records, in a world where unpacking
  succeeds and leaves three files. The \<open>fi_\<close> answers are those of Qt for this path.
\<close>

definition exampleWorld :: world where
  "exampleWorld =
     \<lparr>fi_exists = (\<lambda>p. p = ''/a/b/archive.zip''),
      fi_isFile = (\<lambda>p. p = ''/a/b/archive.zip''),
      fi_absoluteFilePath = (\<lambda>p. p),
      fi_absolutePath = (\<lambda>p. ''/a/b''),
      fi_completeBaseName = (\<lambda>p. ''archive''),
      fi_size = (\<lambda>p. 1024),
      file_open = (\<lambda>p. True),
      fileTypeString = ''ZIP'',
      getClass = True,
      getArchiveRecords =
        [\<lparr>sOriginalName = ''a.txt'', nStreamSize = 10\<rparr>,
         \<lparr>sOriginalName = ''b.txt'', nStreamSize = 20\<rparr>,
         \<lparr>sOriginalName = ''c.txt'', nStreamSize = 30\<rparr>],
      enumProgress = [halfway],
      createPdStruct =
        \<lparr>pdRecord =
           replicate 5 \<lparr>nCurrent = 0, nTotal = 0, sStatus = [], bIsValid = False\<rparr>,
         nLastCallbackTime = 0\<rparr>,
      tempPath = ''/tmp'',
      separator = CHR ''/'',
      currentMSecsSinceEpoch = 1700000000000,
      unpackDeviceToFolder = (\<lambda>d. True),
      unpackProgress = (\<lambda>d. [halfway]),
      entryInfoList = (\<lambda>d. [''a.txt'', ''b.txt'', ''c.txt''])\<rparr>"

text \<open>The command line \<open>program /a/b/archive.zip\<close>, and one with a path that does not exist.\<close>

definition exampleArgs :: cmdline where
  "exampleArgs =
     \<lparr>testProgressSet = False, listSet = False, testSet = False, extractSet = False,
      outputValue = None, positionalArguments = [''/a/b/archive.zip'']\<rparr>"

definition missingArgs :: cmdline where
  "missingArgs = exampleArgs\<lparr>positionalArguments := [''/a/b/missing.zip'']\<rparr>"

section \<open>Properties of the progress callback\<close>

subsection \<open>The loop computes the sums over the valid slots\<close>

lemma sumRecords_acc:
  "sumRecords rs c t s =
     (c + sum_list (map nCurrent (validSlots rs)),
      t + sum_list (map nTotal (validSlots rs)),
      s @ statusList rs)"
  by (induction rs arbitrary: c t s) (simp_all add: validSlots_def statusList_def add.assoc)

lemma word_sum_sint:
  "sum_list (map f xs) = (word_of_int (sum_list (map (\<lambda>r. sint (f r)) xs)) :: qint64)"
  by (induction xs) simp_all

lemma sumRecords_sums:
  "sumRecords rs 0 0 [] =
     (word_of_int (currentSum rs), word_of_int (totalSum rs), statusList rs)"
  by (simp add: sumRecords_acc currentSum_def totalSum_def word_sum_sint [symmetric])

lemma validSlots_append: "validSlots (xs @ ys) = validSlots xs @ validSlots ys"
  by (simp add: validSlots_def)

lemma statusList_append: "statusList (xs @ ys) = statusList xs @ statusList ys"
  by (simp add: statusList_def validSlots_def)

subsection \<open>Signed 64-bit and 32-bit readings\<close>

lemma sint_qint64:
  "- (2 ^ 63) \<le> x \<Longrightarrow> x < 2 ^ 63 \<Longrightarrow> sint (word_of_int x :: qint64) = x"
  by (simp add: sint_sbintrunc' signed_take_bit_int_eq_self)

lemma sint_qint32:
  "- (2 ^ 31) \<le> x \<Longrightarrow> x < 2 ^ 31 \<Longrightarrow> sint (word_of_int x :: qint32) = x"
  by (simp add: sint_sbintrunc' signed_take_bit_int_eq_self)

lemma narrow_qint64:
  "ucast (word_of_int x :: qint64) = (word_of_int x :: qint32)"
  by (rule ucast_down_wi) (simp add: is_down)

lemma sdiv_nonneg:
  "0 \<le> a \<Longrightarrow> 0 < b \<Longrightarrow> (a :: int) sdiv b = a div b"
  by (cases "a = 0") (simp_all add: signed_divide_int_def)

lemma qint64_div_nonneg:
  assumes "sint a = x" "sint b = y" "0 \<le> x" "0 < y"
  shows "qint64_div a b = Inr (word_of_int (x div y))"
proof -
  have "b \<noteq> 0" using assms by auto
  moreover have "sint b \<noteq> - 1" using assms by simp
  ultimately show ?thesis
    using assms by (simp add: qint64_div_def sdiv_nonneg)
qed

lemma nPercent_exact:
  assumes "0 \<le> c" "100 * c < 2 ^ 63" "0 < t" "t < 2 ^ 63"
  shows "nPercent (word_of_int c) (word_of_int t) = Inr (word_of_int (100 * c div t))"
proof -
  have st: "sint (word_of_int t :: qint64) = t"
    using assms by (simp add: sint_qint64)
  have prod: "(word_of_int c :: qint64) * 100 = word_of_int (100 * c)"
    by (simp add: mult.commute)
  have sp: "sint (word_of_int (100 * c) :: qint64) = 100 * c"
    by (rule sint_qint64) (use assms in auto)
  have "qint64_div (word_of_int (100 * c)) (word_of_int t)
          = Inr (word_of_int (100 * c div t))"
    by (rule qint64_div_nonneg [OF sp st]) (use assms in auto)
  then show ?thesis
    by (simp only: nPercent_def prod sum.case narrow_qint64)
qed

lemma progressCallback_no_error: "\<exists>out. progressCallback p = Inr out"
proof (cases p)
  case None
  then show ?thesis by (simp add: progressCallback_def)
next
  case (Some pd)
  obtain c t s where s: "sumRecords (pdRecord pd) 0 0 [] = (c, t, s)"
    by (cases "sumRecords (pdRecord pd) 0 0 []") auto
  show ?thesis
  proof (cases "0 <s t")
    case True
    then have "0 < sint t" by (simp add: word_sless_alt)
    then have "t \<noteq> 0" "sint t \<noteq> - 1" by auto
    then show ?thesis
      using Some s True by (simp add: progressCallback_def nPercent_def qint64_div_def)
  next
    case False
    then show ?thesis using Some s by (simp add: progressCallback_def)
  qed
qed

lemma progressCallback_nothing:
  "totalSum (pdRecord pd) = 0 \<Longrightarrow> progressCallback (Some pd) = Inr None"
  by (simp add: progressCallback_def sumRecords_sums)

lemma totalSum_all_zero:
  "\<forall>r \<in> set rs. bIsValid r \<longrightarrow> nTotal r = 0 \<Longrightarrow> totalSum rs = 0"
  by (induction rs) (simp_all add: totalSum_def validSlots_def)

subsection \<open>The percentage\<close>

text \<open>
  Claim C1, as stated, fails: the percentage is not clamped. In the table
  \<open>overshoot\<close> every slot respects \<open>current \<le> total\<close> where its total is known,
  the denominator is 10, and the callback prints 150 percent; the quotient
  \<^verbatim>\<open>(nTotalCurrent * 100) / nTotalAll\<close> is written as it is.
\<close>

theorem progressCallback_unclamped:
  "0 < totalSum (pdRecord overshoot)
   \<and> currentSum (pdRecord overshoot) = 15 \<and> totalSum (pdRecord overshoot) = 10
   \<and> progressCallback (Some overshoot)
       = Inr (Some (CHR 0x0D # ''Progress: 150% (15/10) - scan''))
   \<and> nPercent 15 10 = Inr 150 \<and> \<not> (150 :: qint32) \<le>s 100"
  by code_simp

text \<open>
  Claim C1, amended: for every progress table whose valid slots sum to a denominator
  \<open>totalSum > 0\<close> and to a numerator \<open>currentSum \<ge> 0\<close>, with
  \<open>100 * currentSum\<close> and \<open>totalSum\<close> in the signed 64-bit range and the
  quotient in the signed 32-bit range, the callback prints the percentage
  \<open>floor (100 * currentSum / totalSum)\<close>, beside the two sums and the joined status.
  The percentage is not negative; it is at most 100 whenever
  \<open>currentSum \<le> totalSum\<close>, and no clamp is applied otherwise.
\<close>

theorem progressCallback_percent:
  assumes "0 < totalSum (pdRecord pd)" and "totalSum (pdRecord pd) < 2 ^ 63"
    and "0 \<le> currentSum (pdRecord pd)" and "100 * currentSum (pdRecord pd) < 2 ^ 63"
    and "100 * currentSum (pdRecord pd) div totalSum (pdRecord pd) < 2 ^ 31"
  shows "progressCallback (Some pd) =
           Inr (Some (CHR 0x0D # ''Progress: ''
                 @ number (100 * currentSum (pdRecord pd) div totalSum (pdRecord pd))
                 @ ''% ('' @ number (currentSum (pdRecord pd))
                 @ ''/'' @ number (totalSum (pdRecord pd)) @ '')''
                 @ (if join ''/'' (statusList (pdRecord pd)) \<noteq> []
                    then '' - '' @ join ''/'' (statusList (pdRecord pd)) else [])))
         \<and> 0 \<le> 100 * currentSum (pdRecord pd) div totalSum (pdRecord pd)
         \<and> (currentSum (pdRecord pd) \<le> totalSum (pdRecord pd) \<longrightarrow>
              100 * currentSum (pdRecord pd) div totalSum (pdRecord pd) \<le> 100)"
proof -
  let ?c = "currentSum (pdRecord pd)" and ?t = "totalSum (pdRecord pd)"
  let ?q = "100 * ?c div ?t"
  have q0: "0 \<le> ?q" using assms by (simp add: pos_imp_zdiv_nonneg_iff)
  have st: "sint (word_of_int ?t :: qint64) = ?t"
    using assms by (intro sint_qint64) auto
  have sc: "sint (word_of_int ?c :: qint64) = ?c"
    using assms by (intro sint_qint64) auto
  have pos: "0 <s (word_of_int ?t :: qint64)"
    using assms by (simp add: word_sless_alt st)
  have np: "nPercent (word_of_int ?c) (word_of_int ?t) = Inr (word_of_int ?q)"
    using assms by (intro nPercent_exact) auto
  have sq: "sint (word_of_int ?q :: qint32) = ?q"
    using q0 assms(5) by (intro sint_qint32) auto
  have le: "?c \<le> ?t \<Longrightarrow> ?q \<le> 100"
  proof -
    assume "?c \<le> ?t"
    then have "100 * ?c \<le> 100 * ?t" by simp
    then have "?q \<le> 100 * ?t div ?t" by (rule zdiv_mono1) (use assms in simp)
    then show ?thesis using assms by simp
  qed
  have run: "progressCallback (Some pd) =
      Inr (Some (progressText (word_of_int ?q) (word_of_int ?c) (word_of_int ?t)
                   (join ''/'' (statusList (pdRecord pd)))))"
    by (simp add: progressCallback_def sumRecords_sums pos np)
  have shown: "progressText (word_of_int ?q) (word_of_int ?c) (word_of_int ?t)
                   (join ''/'' (statusList (pdRecord pd))) =
             CHR 0x0D # ''Progress: '' @ number ?q @ ''% ('' @ number ?c
                 @ ''/'' @ number ?t @ '')''
                 @ (if join ''/'' (statusList (pdRecord pd)) \<noteq> []
                    then '' - '' @ join ''/'' (statusList (pdRecord pd)) else [])"
    unfolding progressText_def sq sc st by simp
  show ?thesis
    using q0 le unfolding run shown by blast
qed

text \<open>The table \<open>halfway\<close>: 3 of 8 units, 37 percent.\<close>

lemma halfway_sums:
  "currentSum (pdRecord halfway) = 3" "totalSum (pdRecord halfway) = 8"
  "statusList (pdRecord halfway) = [''list'', ''unpack'']"
  by code_simp+

lemma halfway_range:
  "(0::int) < 8" "(8::int) < 2 ^ 63" "(0::int) \<le> 3" "100 * (3::int) < 2 ^ 63"
  "100 * (3::int) div 8 < 2 ^ 31" "(3::int) \<le> 8"
  "CHR 0x0D # ''Progress: '' @ number (100 * 3 div 8) @ ''% ('' @ number 3
     @ ''/'' @ number 8 @ '')''
     @ (if join ''/'' [''list'', ''unpack''] \<noteq> []
        then '' - '' @ join ''/'' [''list'', ''unpack''] else [])
   = CHR 0x0D # ''Progress: 37% (3/8) - list/unpack''"
  by code_simp+

text \<open>Witness for C1: the amended statement at the table \<open>halfway\<close>.\<close>

theorem progressCallback_percent_witness:
  "progressCallback (Some halfway) = Inr (Some (CHR 0x0D # ''Progress: 37% (3/8) - list/unpack''))
   \<and> (0::int) \<le> 100 * 3 div 8 \<and> 100 * (3::int) div 8 \<le> 100"
  using progressCallback_percent [of halfway] halfway_range
  unfolding halfway_sums
  by simp

subsection \<open>Slots of unknown size, released slots\<close>

lemma slot_split:
  "i < length rs \<Longrightarrow> rs = take i rs @ rs ! i # drop (Suc i) rs"
  "i < length rs \<Longrightarrow> rs[i := r'] = take i rs @ r' # drop (Suc i) rs"
  by (simp_all add: id_take_nth_drop [symmetric] upd_conv_take_nth_drop)

lemma sumRecords_valid_slot:
  assumes "bIsValid r" "\<not> bIsValid r'"
  shows "sumRecords (pre @ r # post) c t s =
           (fst (sumRecords (pre @ r' # post) c t s) + nCurrent r,
            fst (snd (sumRecords (pre @ r' # post) c t s)) + nTotal r,
            s @ statusList (pre @ r # post))"
  using assms by (simp add: sumRecords_acc validSlots_def)

lemma sumRecords_invalid_slot:
  assumes "\<not> bIsValid r" "\<not> bIsValid r'"
  shows "sumRecords (pre @ r # post) c t s = sumRecords (pre @ r' # post) c t s"
  using assms by (simp add: sumRecords_acc validSlots_def statusList_def)

text \<open>
  Claim C2: a valid slot whose total is 0 adds its current counter to the numerator and
  nothing to the denominator (the sums are compared with those of the table in which the
  slot is released); whenever the denominator over the valid slots is 0, in particular
  when every valid slot has total 0, the callback writes nothing; and the callback never
  divides by zero.
\<close>

theorem progressCallback_zero_total:
  "(i < length rs \<and> bIsValid (rs ! i) \<and> nTotal (rs ! i) = 0 \<longrightarrow>
      fst (sumRecords rs 0 0 []) =
        fst (sumRecords (rs[i := (rs ! i)\<lparr>bIsValid := False\<rparr>]) 0 0 []) + nCurrent (rs ! i)
      \<and> fst (snd (sumRecords rs 0 0 [])) =
          fst (snd (sumRecords (rs[i := (rs ! i)\<lparr>bIsValid := False\<rparr>]) 0 0 [])))
   \<and> (totalSum (pdRecord pd) = 0 \<longrightarrow> progressCallback (Some pd) = Inr None)
   \<and> ((\<forall>r \<in> set (pdRecord pd). bIsValid r \<longrightarrow> nTotal r = 0) \<longrightarrow>
        progressCallback (Some pd) = Inr None)
   \<and> progressCallback p \<noteq> Inl DivisionByZero"
proof -
  have a: "fst (sumRecords rs 0 0 []) =
        fst (sumRecords (rs[i := (rs ! i)\<lparr>bIsValid := False\<rparr>]) 0 0 []) + nCurrent (rs ! i)
      \<and> fst (snd (sumRecords rs 0 0 [])) =
          fst (snd (sumRecords (rs[i := (rs ! i)\<lparr>bIsValid := False\<rparr>]) 0 0 []))"
    if "i < length rs" "bIsValid (rs ! i)" "nTotal (rs ! i) = 0"
  proof -
    let ?r' = "(rs ! i)\<lparr>bIsValid := False\<rparr>"
    have "sumRecords (take i rs @ rs ! i # drop (Suc i) rs) 0 0 [] =
           (fst (sumRecords (take i rs @ ?r' # drop (Suc i) rs) 0 0 []) + nCurrent (rs ! i),
            fst (snd (sumRecords (take i rs @ ?r' # drop (Suc i) rs) 0 0 [])) + nTotal (rs ! i),
            [] @ statusList (take i rs @ rs ! i # drop (Suc i) rs))"
      by (rule sumRecords_valid_slot) (use that in simp_all)
    then show ?thesis
      using that slot_split(1) [of i rs] slot_split(2) [of i rs ?r'] by simp
  qed
  have b: "totalSum (pdRecord pd) = 0 \<longrightarrow> progressCallback (Some pd) = Inr None"
    by (simp add: progressCallback_nothing)
  have c: "(\<forall>r \<in> set (pdRecord pd). bIsValid r \<longrightarrow> nTotal r = 0) \<longrightarrow>
        progressCallback (Some pd) = Inr None"
    using totalSum_all_zero progressCallback_nothing by blast
  have d: "progressCallback p \<noteq> Inl DivisionByZero"
    using progressCallback_no_error [of p] by auto
  show ?thesis using a b c d by blast
qed

lemma indeterminate_facts:
  "0 < length (pdRecord indeterminate)"
  "bIsValid (pdRecord indeterminate ! 0)"
  "nTotal (pdRecord indeterminate ! 0) = 0"
  "nCurrent (pdRecord indeterminate ! 0) = 7"
  "totalSum (pdRecord indeterminate) = 0"
  "\<forall>r \<in> set (pdRecord indeterminate). bIsValid r \<longrightarrow> nTotal r = 0"
  "fst (sumRecords (pdRecord indeterminate) 0 0 []) = 9"
  by code_simp+

text \<open>Witness for C2: slot 0 of the table \<open>indeterminate\<close>.\<close>

theorem progressCallback_zero_total_witness:
  "fst (sumRecords (pdRecord indeterminate) 0 0 []) =
     fst (sumRecords ((pdRecord indeterminate)
            [0 := (pdRecord indeterminate ! 0)\<lparr>bIsValid := False\<rparr>]) 0 0 [])
     + nCurrent (pdRecord indeterminate ! 0)
   \<and> fst (snd (sumRecords (pdRecord indeterminate) 0 0 [])) =
      fst (snd (sumRecords ((pdRecord indeterminate)
            [0 := (pdRecord indeterminate ! 0)\<lparr>bIsValid := False\<rparr>]) 0 0 []))
   \<and> nCurrent (pdRecord indeterminate ! 0) = 7
   \<and> fst (sumRecords (pdRecord indeterminate) 0 0 []) = 9
   \<and> totalSum (pdRecord indeterminate) = 0
   \<and> progressCallback (Some indeterminate) = Inr None
   \<and> progressCallback (Some indeterminate) \<noteq> Inl DivisionByZero"
  using progressCallback_zero_total [of 0 "pdRecord indeterminate" indeterminate "Some indeterminate"]
    indeterminate_facts
  by blast

text \<open>
  Claim C4: the loop sums over the valid slots only. The three accumulators are those of
  the table restricted to its valid slots, and overwriting a slot that is not valid with
  any other content that is not valid changes neither the sums, nor the status list, nor
  what the callback writes.
\<close>

theorem invalid_slot_ignored:
  "sumRecords rs c t s = sumRecords (validSlots rs) c t s
   \<and> (i < length (pdRecord pd) \<and> \<not> bIsValid (pdRecord pd ! i) \<and> \<not> bIsValid r' \<longrightarrow>
        sumRecords ((pdRecord pd)[i := r']) c t s = sumRecords (pdRecord pd) c t s
        \<and> progressCallback (Some (pd\<lparr>pdRecord := (pdRecord pd)[i := r']\<rparr>)) =
            progressCallback (Some pd))"
proof -
  have idem: "validSlots (validSlots xs) = validSlots xs" for xs
    by (simp add: validSlots_def)
  have st: "statusList (validSlots xs) = statusList xs" for xs
    by (simp add: statusList_def idem)
  have a: "sumRecords rs c t s = sumRecords (validSlots rs) c t s"
    by (simp add: sumRecords_acc [of rs] sumRecords_acc [of "validSlots rs"] idem st)
  have b: "sumRecords ((pdRecord pd)[i := r']) c' t' s' = sumRecords (pdRecord pd) c' t' s'"
    if "i < length (pdRecord pd)" "\<not> bIsValid (pdRecord pd ! i)" "\<not> bIsValid r'"
    for c' t' s'
  proof -
    let ?rs = "pdRecord pd"
    have "sumRecords (take i ?rs @ r' # drop (Suc i) ?rs) c' t' s' =
          sumRecords (take i ?rs @ ?rs ! i # drop (Suc i) ?rs) c' t' s'"
      by (rule sumRecords_invalid_slot) (use that in simp_all)
    then show ?thesis
      using slot_split(1) [of i ?rs] slot_split(2) [of i ?rs r'] that(1) by simp
  qed
  have c: "progressCallback (Some (pd\<lparr>pdRecord := (pdRecord pd)[i := r']\<rparr>)) =
            progressCallback (Some pd)"
    if "i < length (pdRecord pd)" "\<not> bIsValid (pdRecord pd ! i)" "\<not> bIsValid r'"
    using b [OF that] by (simp add: progressCallback_def)
  show ?thesis using a b c by blast
qed

lemma halfway_facts:
  "1 < length (pdRecord halfway)"
  "\<not> bIsValid (pdRecord halfway ! 1)"
  "nCurrent (pdRecord halfway ! 1) = 90"
  "\<not> bIsValid \<lparr>nCurrent = 0, nTotal = 0, sStatus = [], bIsValid = False\<rparr>"
  "sumRecords (pdRecord halfway) 0 0 [] = (3, 8, [''list'', ''unpack''])"
  "progressCallback (Some halfway) \<noteq> Inr None"
  by code_simp+

text \<open>Witness for C4: the released slot 1 of the table \<open>halfway\<close>.\<close>

theorem invalid_slot_ignored_witness:
  "sumRecords ((pdRecord halfway)
       [1 := \<lparr>nCurrent = 0, nTotal = 0, sStatus = [], bIsValid = False\<rparr>]) 0 0 []
     = sumRecords (pdRecord halfway) 0 0 []
   \<and> sumRecords (pdRecord halfway) 0 0 [] = sumRecords (validSlots (pdRecord halfway)) 0 0 []
   \<and> sumRecords (pdRecord halfway) 0 0 [] = (3, 8, [''list'', ''unpack''])
   \<and> nCurrent (pdRecord halfway ! 1) = 90
   \<and> progressCallback (Some (halfway\<lparr>pdRecord := (pdRecord halfway)
          [1 := \<lparr>nCurrent = 0, nTotal = 0, sStatus = [], bIsValid = False\<rparr>]\<rparr>))
      = progressCallback (Some halfway)"
  using invalid_slot_ignored
      [of "pdRecord halfway" 0 0 "[]" 1 halfway
          "\<lparr>nCurrent = 0, nTotal = 0, sStatus = [], bIsValid = False\<rparr>"]
    halfway_facts
  by blast

subsection \<open>The status line\<close>

lemma join_slash:
  "join ''/'' xs =
     (case xs of [] \<Rightarrow> [] | s # ss \<Rightarrow> s @ concat (map (\<lambda>x. CHR ''/'' # x) ss))"
  by (induction "''/''" xs rule: join.induct) simp_all

lemma join_statusList: "join ''/'' (statusList rs) = joinedStatus rs"
  by (simp add: joinedStatus_def join_slash)

lemma statusList_nonempty: "s \<in> set (statusList rs) \<Longrightarrow> s \<noteq> []"
  by (auto simp: statusList_def)

lemma joinedStatus_empty: "joinedStatus rs = [] \<longleftrightarrow> statusList rs = []"
proof (cases "statusList rs")
  case Nil
  then show ?thesis by (simp add: joinedStatus_def)
next
  case (Cons s ss)
  then have "s \<noteq> []" using statusList_nonempty [of s rs] by simp
  then show ?thesis using Cons by (simp add: joinedStatus_def)
qed

text \<open>
  Claim C5: the status list that the loop collects is the list of the non-empty status
  strings of the valid slots in slot order: it is a function of the table alone, the
  list of a table split in two is the list of the first part followed by that of the
  second, and a single slot gives its status exactly when it is valid and the status is
  not empty. Whenever the callback writes a line, the line is the carriage return,
  \<open>Progress: \<close>, the percentage and the two sums, and then, unless no status was
  collected, \<open> - \<close> and the collected strings in that order with \<open>/\<close> between
  them: the first string, and every later one behind a \<open>/\<close>.
\<close>

theorem status_line_in_slot_order:
  "snd (snd (sumRecords rs 0 0 [])) = statusList rs
   \<and> statusList (xs @ ys) = statusList xs @ statusList ys
   \<and> statusList [r] = (if bIsValid r \<and> sStatus r \<noteq> [] then [sStatus r] else [])
   \<and> (joinedStatus rs = [] \<longleftrightarrow> statusList rs = [])
   \<and> (progressCallback (Some pd) = Inr None
       \<or> (\<exists>(p::qint32) (c::qint64) (t::qint64). progressCallback (Some pd) =
             Inr (Some (CHR 0x0D # ''Progress: '' @ number (sint p) @ ''% (''
                   @ number (sint c) @ ''/'' @ number (sint t) @ '')''
                   @ (case statusList (pdRecord pd) of
                        [] \<Rightarrow> []
                      | s # ss \<Rightarrow>
                          '' - '' @ s @ concat (map (\<lambda>x. CHR ''/'' # x) ss))))))"
proof -
  let ?tail = "case statusList (pdRecord pd) of
                 [] \<Rightarrow> []
               | s # ss \<Rightarrow> '' - '' @ s @ concat (map (\<lambda>x. CHR ''/'' # x) ss)"
  have tail: "(if join ''/'' (statusList (pdRecord pd)) \<noteq> []
               then '' - '' @ join ''/'' (statusList (pdRecord pd)) else []) = ?tail"
  proof (cases "statusList (pdRecord pd)")
    case Nil
    then show ?thesis by simp
  next
    case (Cons s ss)
    then have "s \<noteq> []" using statusList_nonempty [of s "pdRecord pd"] by simp
    then show ?thesis using Cons by (simp add: join_slash)
  qed
  have shown: "progressText p c t (join ''/'' (statusList (pdRecord pd))) =
          CHR 0x0D # ''Progress: '' @ number (sint p) @ ''% (''
            @ number (sint c) @ ''/'' @ number (sint t) @ '')'' @ ?tail" for p c t
    unfolding progressText_def tail by simp
  obtain out where out: "progressCallback (Some pd) = Inr out"
    using progressCallback_no_error by blast
  have e: "out = None
        \<or> (\<exists>p c t. out = Some (progressText p c t (join ''/'' (statusList (pdRecord pd)))))"
    using out
    by (auto simp: progressCallback_def sumRecords_sums split: if_splits sum.splits)
  have d: "progressCallback (Some pd) = Inr None
       \<or> (\<exists>(p::qint32) (c::qint64) (t::qint64). progressCallback (Some pd) =
             Inr (Some (CHR 0x0D # ''Progress: '' @ number (sint p) @ ''% (''
                   @ number (sint c) @ ''/'' @ number (sint t) @ '')'' @ ?tail)))"
  proof (cases out)
    case None
    then show ?thesis using out by simp
  next
    case (Some line)
    then obtain p c t where
      "line = progressText p c t (join ''/'' (statusList (pdRecord pd)))"
      using e by auto
    then have "progressCallback (Some pd) =
        Inr (Some (progressText p c t (join ''/'' (statusList (pdRecord pd)))))"
      using out Some by simp
    then have "progressCallback (Some pd) =
        Inr (Some (CHR 0x0D # ''Progress: '' @ number (sint p) @ ''% (''
                   @ number (sint c) @ ''/'' @ number (sint t) @ '')'' @ ?tail))"
      unfolding shown .
    then show ?thesis by iprover
  qed
  have a: "snd (snd (sumRecords rs 0 0 [])) = statusList rs"
    by (simp add: sumRecords_sums)
  have c: "statusList [r] = (if bIsValid r \<and> sStatus r \<noteq> [] then [sStatus r] else [])"
    by (simp add: statusList_def validSlots_def)
  show ?thesis using a c d statusList_append joinedStatus_empty by blast
qed

text \<open>
  The lines of the three example tables: two statuses with the separator between them
  (a released slot and a valid slot without status are passed over), a single status
  without separator, and no line at all.
\<close>

lemma status_examples:
  "statusList (pdRecord halfway) = [''list'', ''unpack'']"
  "joinedStatus (pdRecord halfway) = ''list/unpack''"
  "progressCallback (Some halfway)
     = Inr (Some (CHR 0x0D # ''Progress: 37% (3/8) - list/unpack''))"
  "statusList (pdRecord overshoot) = [''scan'']"
  "joinedStatus (pdRecord overshoot) = ''scan''"
  "progressCallback (Some overshoot)
     = Inr (Some (CHR 0x0D # ''Progress: 150% (15/10) - scan''))"
  "progressCallback (Some indeterminate) = Inr None"
  by code_simp+

text \<open>
  Witness for C5: the table \<open>halfway\<close>, whose line ends in \<open> - list/unpack\<close>,
  and the table \<open>overshoot\<close>, whose line ends in \<open> - scan\<close>.
\<close>

theorem status_line_in_slot_order_witness:
  "snd (snd (sumRecords (pdRecord halfway) 0 0 [])) = [''list'', ''unpack'']
   \<and> (\<exists>(p::qint32) (c::qint64) (t::qint64). progressCallback (Some halfway) =
         Inr (Some (CHR 0x0D # ''Progress: '' @ number (sint p) @ ''% (''
               @ number (sint c) @ ''/'' @ number (sint t) @ '')''
               @ '' - list/unpack'')))
   \<and> progressCallback (Some halfway)
       = Inr (Some (CHR 0x0D # ''Progress: 37% (3/8) - list/unpack''))
   \<and> snd (snd (sumRecords (pdRecord overshoot) 0 0 [])) = [''scan'']
   \<and> (\<exists>(p::qint32) (c::qint64) (t::qint64). progressCallback (Some overshoot) =
         Inr (Some (CHR 0x0D # ''Progress: '' @ number (sint p) @ ''% (''
               @ number (sint c) @ ''/'' @ number (sint t) @ '')''
               @ '' - scan'')))
   \<and> progressCallback (Some overshoot)
       = Inr (Some (CHR 0x0D # ''Progress: 150% (15/10) - scan''))"
proof -
  note th = status_line_in_slot_order
              [of "pdRecord halfway" "[]" "[]" "hd (pdRecord halfway)" halfway]
  note to = status_line_in_slot_order
              [of "pdRecord overshoot" "[]" "[]" "hd (pdRecord overshoot)" overshoot]
  have h: "progressCallback (Some halfway) \<noteq> Inr None"
    and o: "progressCallback (Some overshoot) \<noteq> Inr None"
    by (simp_all add: status_examples)
  have tail_h: "(case statusList (pdRecord halfway) of
                   [] \<Rightarrow> []
                 | s # ss \<Rightarrow> '' - '' @ s @ concat (map (\<lambda>x. CHR ''/'' # x) ss))
                = '' - list/unpack''"
    by (simp add: status_examples(1))
  have tail_o: "(case statusList (pdRecord overshoot) of
                   [] \<Rightarrow> []
                 | s # ss \<Rightarrow> '' - '' @ s @ concat (map (\<lambda>x. CHR ''/'' # x) ss))
                = '' - scan''"
    by (simp add: status_examples(4))
  have list_h: "snd (snd (sumRecords (pdRecord halfway) 0 0 [])) = [''list'', ''unpack'']"
    using th unfolding status_examples(1) by iprover
  have list_o: "snd (snd (sumRecords (pdRecord overshoot) 0 0 [])) = [''scan'']"
    using to unfolding status_examples(4) by iprover
  have line_h: "\<exists>(p::qint32) (c::qint64) (t::qint64). progressCallback (Some halfway) =
         Inr (Some (CHR 0x0D # ''Progress: '' @ number (sint p) @ ''% (''
               @ number (sint c) @ ''/'' @ number (sint t) @ '')''
               @ '' - list/unpack''))"
    using th h unfolding tail_h by iprover
  have line_o: "\<exists>(p::qint32) (c::qint64) (t::qint64). progressCallback (Some overshoot) =
         Inr (Some (CHR 0x0D # ''Progress: '' @ number (sint p) @ ''% (''
               @ number (sint c) @ ''/'' @ number (sint t) @ '')''
               @ '' - scan''))"
    using to o unfolding tail_o by iprover
  show ?thesis
    using list_h line_h status_examples(3) list_o line_o status_examples(6)
    by (intro conjI)
qed

section \<open>Properties of main\<close>

subsection \<open>What the callback adds to a trace\<close>

lemma progressText_head: "\<exists>t. progressText p c t' s = CHR 0x0D # t"
  by (simp add: progressText_def)

lemma progressCallback_line:
  assumes "progressCallback p = Inr (Some line)"
  shows "\<exists>t. line = CHR 0x0D # t"
proof -
  from assms obtain q c t' s where "line = progressText q c t' s"
    by (auto simp: progressCallback_def split: option.splits prod.splits if_splits sum.splits)
  then show ?thesis using progressText_head by simp
qed

lemma invokeCallback_progress:
  assumes "e \<in> set (invokeCallback pd)"
  shows "isProgressLine e"
proof -
  obtain out where out: "progressCallback (Some pd) = Inr out"
    using progressCallback_no_error by blast
  show ?thesis
  proof (cases out)
    case None
    then show ?thesis using assms out by (simp add: invokeCallback_def)
  next
    case (Some line)
    then have e: "e = Stdout line" using assms out by (simp add: invokeCallback_def)
    obtain t where "line = CHR 0x0D # t" using progressCallback_line out Some by blast
    then show ?thesis using e by simp
  qed
qed

lemma callbackEvents_progress:
  "e \<in> set (callbackEvents pds) \<Longrightarrow> isProgressLine e"
  by (auto simp: callbackEvents_def dest: invokeCallback_progress)

lemma callbackEvents_notin:
  "\<not> isProgressLine e \<Longrightarrow> e \<notin> set (callbackEvents pds)"
  using callbackEvents_progress by blast

lemma progress_not_passed: "isProgressLine e \<Longrightarrow> \<not> isPassedLine e"
  by (cases e rule: isProgressLine.cases) simp_all

lemma progress_no_mkpath: "isProgressLine e \<Longrightarrow> mkpathOf e = []"
  by (cases e rule: isProgressLine.cases) simp_all

lemma progress_no_stderr: "isProgressLine e \<Longrightarrow> stderrOf e = []"
  by (cases e rule: isProgressLine.cases) simp_all

lemma callbackEvents_quiet:
  "\<not> reportsPassed (callbackEvents pds)"
  "directoriesCreated (callbackEvents pds) = []"
  "standardError (callbackEvents pds) = []"
  using callbackEvents_progress [of _ pds] progress_not_passed progress_no_mkpath
    progress_no_stderr
  by (auto simp: reportsPassed_def list_ex_iff directoriesCreated_def standardError_def)

subsection \<open>Observations on the parts of a trace\<close>

lemma observations_append:
  "ranList (xs @ ys) = (ranList xs \<or> ranList ys)"
  "ranTest (xs @ ys) = (ranTest xs \<or> ranTest ys)"
  "ranExtract (xs @ ys) = (ranExtract xs \<or> ranExtract ys)"
  "reportsPassed (xs @ ys) = (reportsPassed xs \<or> reportsPassed ys)"
  "reportsFailed (xs @ ys) = (reportsFailed xs \<or> reportsFailed ys)"
  "directoriesCreated (xs @ ys) = directoriesCreated xs @ directoriesCreated ys"
  "standardError (xs @ ys) = standardError xs @ standardError ys"
  by (auto simp: ranList_def ranTest_def ranExtract_def reportsPassed_def reportsFailed_def
        directoriesCreated_def standardError_def list_ex_iff)

lemma callbackEvents_no_action:
  "\<not> ranList (callbackEvents pds)" "\<not> ranTest (callbackEvents pds)"
  "\<not> ranExtract (callbackEvents pds)" "\<not> reportsFailed (callbackEvents pds)"
  by (simp_all add: ranList_def ranTest_def ranExtract_def reportsFailed_def
        callbackEvents_notin)

lemma enumEvents_quiet:
  "\<not> ranList (enumEvents w p)" "\<not> ranTest (enumEvents w p)" "\<not> ranExtract (enumEvents w p)"
  "\<not> reportsPassed (enumEvents w p)" "\<not> reportsFailed (enumEvents w p)"
  "directoriesCreated (enumEvents w p) = []" "standardError (enumEvents w p) = []"
  unfolding enumEvents_def observations_append
  by (simp_all add: callbackEvents_no_action callbackEvents_quiet)
     (simp_all add: ranList_def ranTest_def ranExtract_def reportsPassed_def reportsFailed_def
        directoriesCreated_def standardError_def printInfo_def)


subsection \<open>A run that reaches the enumeration\<close>

lemma main_enumerated:
  assumes "\<not> testProgressSet args" "positionalArguments args = p # rest"
    "fi_exists w p" "fi_isFile w p" "file_open w p" "getClass w"
  shows "main args w =
     (if getArchiveRecords w = [] then
        (1, enumEvents w p @ printError ''Archive contains no records''
            @ [DeleteBinary, FileClose])
      else
        (case (if listSet args then listAction
               else if testSet args then testAction w
               else extractAction w p (parserValue (outputValue args))) of
           (ev4, Some code) \<Rightarrow> (code, enumEvents w p @ ev4)
         | (ev4, None) \<Rightarrow>
             (0, enumEvents w p @ ev4 @ [DeleteBinary, FileClose]
                 @ printInfo ''Operation completed successfully'')))"
  using assms by (simp add: main_def enumEvents_def Let_def)

lemma epilogue_quiet:
  "\<not> ranList (DeleteBinary # FileClose # printInfo m)"
  "\<not> ranTest (DeleteBinary # FileClose # printInfo ''Operation completed successfully'')"
  "\<not> ranExtract (DeleteBinary # FileClose # printInfo ''Operation completed successfully'')"
  "\<not> reportsPassed (DeleteBinary # FileClose # printInfo ''Operation completed successfully'')"
  "\<not> reportsFailed (DeleteBinary # FileClose # printInfo m)"
  "directoriesCreated (DeleteBinary # FileClose # printInfo m) = []"
  by (simp_all add: ranList_def ranTest_def ranExtract_def reportsPassed_def reportsFailed_def
        directoriesCreated_def printInfo_def)


lemma callbackEvents_raw:
  "PrintModel \<notin> set (callbackEvents pds)"
  "Stderr s \<notin> set (callbackEvents pds)"
  "RemoveRecursively d \<notin> set (callbackEvents pds)"
  "Stdout (CHR ''T'' # s) \<notin> set (callbackEvents pds)"
  "Stdout (CHR ''U'' # s) \<notin> set (callbackEvents pds)"
  "\<not> list_ex isPassedLine (callbackEvents pds)"
  "\<forall>e \<in> set (callbackEvents pds). mkpathOf e = []"
  using callbackEvents_quiet [of pds] callbackEvents_progress [of _ pds] progress_no_mkpath
  by (simp_all add: callbackEvents_notin reportsPassed_def)

lemma testAction_events:
  "ranTest (fst (testAction w))" "\<not> ranList (fst (testAction w))"
  "\<not> ranExtract (fst (testAction w))"
  "reportsPassed (fst (testAction w)) = testPasses w"
  "reportsFailed (fst (testAction w)) = (\<not> testPasses w)"
  "directoriesCreated (fst (testAction w)) = [sTempDir w]"
  "RemoveRecursively (sTempDir w) \<in> set (fst (testAction w))"
  by (simp_all add: testAction_def testPasses_def Let_def
        ranList_def ranTest_def ranExtract_def reportsPassed_def reportsFailed_def
        directoriesCreated_def printInfo_def printError_def callbackEvents_raw)

lemma extractAction_events:
  "ranExtract (fst (extractAction w p d))" "\<not> ranList (fst (extractAction w p d))"
  "\<not> ranTest (fst (extractAction w p d))"
  "directoriesCreated (fst (extractAction w p d)) = [sExtractPath w p d]"
  "UnpackDeviceToFolder (sExtractPath w p d) \<in> set (fst (extractAction w p d))"
  by (simp_all add: extractAction_def Let_def
        ranList_def ranTest_def ranExtract_def
        directoriesCreated_def printInfo_def printError_def callbackEvents_raw)

lemma listAction_events:
  "ranList (fst listAction)" "\<not> ranTest (fst listAction)" "\<not> ranExtract (fst listAction)"
  "directoriesCreated (fst listAction) = []" "snd listAction = None"
  by (simp_all add: listAction_def ranList_def ranTest_def ranExtract_def directoriesCreated_def)

lemma case_action:
  "(case x of (ev, Some c) \<Rightarrow> f ev c | (ev, None) \<Rightarrow> g ev) =
   (case snd x of Some c \<Rightarrow> f (fst x) c | None \<Rightarrow> g (fst x))"
  by (cases x; cases "snd x") simp_all

lemma main_action:
  assumes "\<not> testProgressSet args" "positionalArguments args = p # rest"
    "fi_exists w p" "fi_isFile w p" "file_open w p" "getClass w" "getArchiveRecords w \<noteq> []"
    and act: "act = (if listSet args then listAction
               else if testSet args then testAction w
               else extractAction w p (parserValue (outputValue args)))"
  shows "main args w =
           (case snd act of
              Some code \<Rightarrow> (code, enumEvents w p @ fst act)
            | None \<Rightarrow> (0, enumEvents w p @ fst act @ [DeleteBinary, FileClose]
                           @ printInfo ''Operation completed successfully''))"
  unfolding main_enumerated [OF assms(1-6)] act [symmetric] case_action
  using assms(7) by simp


subsection \<open>Runs that end before the dispatch\<close>

lemma printError_events:
  "\<not> ranList (printError m)" "\<not> ranTest (printError m)" "\<not> ranExtract (printError m)"
  "directoriesCreated (printError m) = []"
  "standardError (printError m) = [''Error: '' @ m @ [CHR 0x0A]]"
  by (simp_all add: printError_def ranList_def ranTest_def ranExtract_def
        directoriesCreated_def standardError_def)

lemma cleanup_events:
  "\<not> ranList [DeleteBinary, FileClose]" "\<not> ranTest [DeleteBinary, FileClose]"
  "\<not> ranExtract [DeleteBinary, FileClose]"
  "directoriesCreated [DeleteBinary, FileClose] = []"
  "standardError [DeleteBinary, FileClose] = []"
  by (simp_all add: ranList_def ranTest_def ranExtract_def
        directoriesCreated_def standardError_def)

lemma testProgressLoop_events:
  "e \<in> set (testProgressLoop i pd) \<Longrightarrow> isProgressLine e \<or> e = Msleep 100"
proof (induction i pd rule: testProgressLoop.induct)
  case (1 i pd)
  show ?case
  proof (cases "i \<le> 100")
    case True
    let ?pd = "updRecord0 (\<lambda>r. r\<lparr>nCurrent := word_of_int i\<rparr>) pd"
    from "1.prems" True have
      "e \<in> set (invokeCallback ?pd) \<or> e = Msleep 100 \<or> e \<in> set (testProgressLoop (i + 5) ?pd)"
      by (subst (asm) testProgressLoop.simps) (auto simp: Let_def)
    then show ?thesis
      using "1.IH" [OF True refl] invokeCallback_progress by blast
  next
    case False
    then show ?thesis using "1.prems" by (subst (asm) testProgressLoop.simps) simp
  qed
qed

lemma testProgressCallback_quiet:
  "\<not> ranList (testProgressCallback w)" "\<not> ranTest (testProgressCallback w)"
  "\<not> ranExtract (testProgressCallback w)"
  using testProgressLoop_events
  by (fastforce simp: testProgressCallback_def ranList_def ranTest_def ranExtract_def
        printInfo_def Let_def)+

lemma main_no_dispatch:
  assumes "\<not> reachesDispatch args w"
  shows "\<not> ranList (snd (main args w)) \<and> \<not> ranTest (snd (main args w))
         \<and> \<not> ranExtract (snd (main args w))"
proof (cases "testProgressSet args")
  case True
  then show ?thesis by (simp add: main_def testProgressCallback_quiet)
next
  case noTp: False
  show ?thesis
  proof (cases "positionalArguments args")
    case Nil
    then show ?thesis
      using noTp
      by (simp add: main_def printError_def ranList_def ranTest_def ranExtract_def)
  next
    case (Cons p rest)
    show ?thesis
    proof (cases "fi_exists w p \<and> fi_isFile w p \<and> file_open w p \<and> getClass w")
      case True
      then have "getArchiveRecords w = []"
        using assms noTp Cons by (simp add: reachesDispatch_def)
      then show ?thesis
        using True main_enumerated [OF noTp Cons, of w]
        by (simp add: observations_append enumEvents_quiet printError_events cleanup_events)
    next
      case False
      then show ?thesis
        using noTp Cons
        by (auto simp: main_def Let_def printError_def printInfo_def
              ranList_def ranTest_def ranExtract_def)
    qed
  qed
qed

subsection \<open>The claims about main\<close>


text \<open>
  Claim C7: in every run whose extract action starts with no \<open>--output\<close> value,
  the destination is the directory of the input file, the separator and the complete
  base name of the input file; \<^verbatim>\<open>mkpath\<close> is called on it, it is the only
  directory the run creates, and the archive is unpacked into it.
\<close>

theorem extract_default_destination:
  assumes "\<not> testProgressSet args" and "positionalArguments args = p # rest"
    and "fi_exists w p" and "fi_isFile w p" and "file_open w p" and "getClass w"
    and "getArchiveRecords w \<noteq> []" and "\<not> listSet args" and "\<not> testSet args"
    and "outputValue args = None"
  shows "ranExtract (snd (main args w))
     \<and> directoriesCreated (snd (main args w)) =
         [fi_absolutePath w p @ [separator w] @ fi_completeBaseName w p]
     \<and> UnpackDeviceToFolder (fi_absolutePath w p @ [separator w] @ fi_completeBaseName w p)
         \<in> set (snd (main args w))"
proof -
  let ?a = "extractAction w p (parserValue (outputValue args))"
  have act: "?a = (if listSet args then listAction
               else if testSet args then testAction w
               else extractAction w p (parserValue (outputValue args)))"
    using assms by simp
  have path: "sExtractPath w p (parserValue (outputValue args)) =
                fi_absolutePath w p @ [separator w] @ fi_completeBaseName w p"
    using assms(10) by (simp add: sExtractPath_def sOutputDir_def parserValue_def)
  note m = main_action [OF assms(1-7) act]
  note ev = extractAction_events [of w p "parserValue (outputValue args)", unfolded path]
  show ?thesis
  proof (cases "snd ?a")
    case None
    then have "snd (main args w) = enumEvents w p @ fst ?a @ [DeleteBinary, FileClose]
                           @ printInfo ''Operation completed successfully''"
      using m by simp
    then show ?thesis
      using ev by (simp add: observations_append enumEvents_quiet epilogue_quiet)
  next
    case (Some code)
    then have "snd (main args w) = enumEvents w p @ fst ?a"
      using m by simp
    then show ?thesis
      using ev by (simp add: observations_append enumEvents_quiet)
  qed
qed

text \<open>
  Claim C8, amended: in every run without \<open>--test-progress\<close> whose input path does
  not exist, the program writes the single line \<open>Error: File not found: <path>\<close> to
  standard error, does nothing else, creates no directory, and exits with code 1.
\<close>

theorem file_not_found:
  assumes "\<not> testProgressSet args" and "positionalArguments args = p # rest"
    and "\<not> fi_exists w p"
  shows "fst (main args w) = 1
     \<and> snd (main args w) = [Stderr (''Error: File not found: '' @ p @ [CHR 0x0A])]
     \<and> standardError (snd (main args w)) = [''Error: File not found: '' @ p @ [CHR 0x0A]]
     \<and> directoriesCreated (snd (main args w)) = []"
  using assms
  by (simp add: main_def printError_def standardError_def directoriesCreated_def)

text \<open>
  Claim C9: in every run whose enumeration returns no record, the exit code is 1, the
  one line on standard error is \<open>Error: Archive contains no records\<close>, none of the
  three actions runs and no directory is created.
\<close>

theorem empty_archive:
  assumes "\<not> testProgressSet args" and "positionalArguments args = p # rest"
    and "fi_exists w p" and "fi_isFile w p" and "file_open w p" and "getClass w"
    and "getArchiveRecords w = []"
  shows "fst (main args w) = 1
     \<and> standardError (snd (main args w)) =
         [''Error: Archive contains no records'' @ [CHR 0x0A]]
     \<and> \<not> ranList (snd (main args w)) \<and> \<not> ranTest (snd (main args w))
     \<and> \<not> ranExtract (snd (main args w))
     \<and> directoriesCreated (snd (main args w)) = []"
  unfolding main_enumerated [OF assms(1-6)]
  using assms(7)
  by (simp add: observations_append enumEvents_quiet printError_events cleanup_events)

text \<open>
  Claim C10, amended: in every run at most one action runs, and one runs exactly when
  the run reaches the dispatch: the list action if \<open>--list\<close> is set, otherwise the
  test action if \<open>--test\<close> is set, otherwise the extract action, whether
  \<open>--extract\<close> is set or not. A run that ends before the dispatch runs none.
\<close>

theorem action_precedence:
  "(ranList (snd (main args w)) \<longleftrightarrow> reachesDispatch args w \<and> listSet args)
   \<and> (ranTest (snd (main args w)) \<longleftrightarrow>
        reachesDispatch args w \<and> \<not> listSet args \<and> testSet args)
   \<and> (ranExtract (snd (main args w)) \<longleftrightarrow>
        reachesDispatch args w \<and> \<not> listSet args \<and> \<not> testSet args)"
proof (cases "reachesDispatch args w")
  case True
  then obtain p rest where h: "\<not> testProgressSet args" "positionalArguments args = p # rest"
    "fi_exists w p" "fi_isFile w p" "file_open w p" "getClass w" "getArchiveRecords w \<noteq> []"
    by (auto simp: reachesDispatch_def split: list.splits)
  define act where "act = (if listSet args then listAction
               else if testSet args then testAction w
               else extractAction w p (parserValue (outputValue args)))"
  note m = main_action [OF h act_def]
  have tr: "snd (main args w) = enumEvents w p @ fst act
          \<or> snd (main args w) = enumEvents w p @ fst act @ [DeleteBinary, FileClose]
                           @ printInfo ''Operation completed successfully''"
    unfolding m by (cases "snd act") simp_all
  have obs: "ranList (snd (main args w)) = ranList (fst act)"
    "ranTest (snd (main args w)) = ranTest (fst act)"
    "ranExtract (snd (main args w)) = ranExtract (fst act)"
    using tr by (auto simp: observations_append enumEvents_quiet epilogue_quiet)
  show ?thesis
    unfolding obs act_def using True
    by (simp add: listAction_events testAction_events extractAction_events)
next
  case False
  then show ?thesis using main_no_dispatch [of args w] by blast
qed

subsection \<open>The claims at the example world\<close>

lemma example_run:
  "\<not> testProgressSet exampleArgs"
  "positionalArguments exampleArgs = ''/a/b/archive.zip'' # []"
  "fi_exists exampleWorld ''/a/b/archive.zip''"
  "fi_isFile exampleWorld ''/a/b/archive.zip''"
  "file_open exampleWorld ''/a/b/archive.zip''"
  "getClass exampleWorld"
  "getArchiveRecords exampleWorld \<noteq> []"
  "\<not> listSet exampleArgs" "\<not> testSet exampleArgs" "outputValue exampleArgs = None"
  by (simp_all add: exampleArgs_def exampleWorld_def)

lemma example_paths:
  "sTempDir exampleWorld = ''/tmp/xfileunpacker_test_1700000000000''"
  "fi_absolutePath exampleWorld ''/a/b/archive.zip'' @ [separator exampleWorld]
     @ fi_completeBaseName exampleWorld ''/a/b/archive.zip'' = ''/a/b/archive''"
  by code_simp+


text \<open>Witness for C7: \<open>/a/b/archive.zip\<close> is extracted into \<open>/a/b/archive\<close>.\<close>

theorem extract_default_destination_witness:
  "ranExtract (snd (main exampleArgs exampleWorld))
   \<and> directoriesCreated (snd (main exampleArgs exampleWorld)) = [''/a/b/archive'']
   \<and> UnpackDeviceToFolder ''/a/b/archive'' \<in> set (snd (main exampleArgs exampleWorld))"
  using extract_default_destination [OF example_run(1-10)]
  unfolding example_paths(2)
  by blast

lemma missing_run:
  "\<not> testProgressSet missingArgs"
  "positionalArguments missingArgs = ''/a/b/missing.zip'' # []"
  "\<not> fi_exists exampleWorld ''/a/b/missing.zip''"
  by (simp_all add: missingArgs_def exampleArgs_def exampleWorld_def)

text \<open>Witness for C8: the path \<open>/a/b/missing.zip\<close>, which does not exist.\<close>

theorem file_not_found_witness:
  "fst (main missingArgs exampleWorld) = 1
   \<and> standardError (snd (main missingArgs exampleWorld))
       = [''Error: File not found: /a/b/missing.zip'' @ [CHR 0x0A]]
   \<and> directoriesCreated (snd (main missingArgs exampleWorld)) = []"
  using file_not_found [OF missing_run]
  by (simp add: standardError_def directoriesCreated_def)

text \<open>Witness for C9: the example archive with an empty enumeration.\<close>

theorem empty_archive_witness:
  "fst (main exampleArgs (exampleWorld\<lparr>getArchiveRecords := []\<rparr>)) = 1
   \<and> standardError (snd (main exampleArgs (exampleWorld\<lparr>getArchiveRecords := []\<rparr>)))
       = [''Error: Archive contains no records'' @ [CHR 0x0A]]
   \<and> \<not> ranList (snd (main exampleArgs (exampleWorld\<lparr>getArchiveRecords := []\<rparr>)))
   \<and> \<not> ranTest (snd (main exampleArgs (exampleWorld\<lparr>getArchiveRecords := []\<rparr>)))
   \<and> \<not> ranExtract (snd (main exampleArgs (exampleWorld\<lparr>getArchiveRecords := []\<rparr>)))
   \<and> directoriesCreated (snd (main exampleArgs (exampleWorld\<lparr>getArchiveRecords := []\<rparr>))) = []"
proof -
  let ?w = "exampleWorld\<lparr>getArchiveRecords := []\<rparr>"
  have w: "fi_exists ?w ''/a/b/archive.zip''" "fi_isFile ?w ''/a/b/archive.zip''"
    "file_open ?w ''/a/b/archive.zip''" "getClass ?w" "getArchiveRecords ?w = []"
    using example_run by simp_all
  show ?thesis
    using empty_archive [OF example_run(1,2) w] by blast
qed

text \<open>
  Witness for C10: all three action options set run the list action, \<open>--test\<close> with
  \<open>--extract\<close> runs the test action, no option runs the extract action.
\<close>

theorem action_precedence_witness:
  "ranList (snd (main (exampleArgs\<lparr>listSet := True, testSet := True, extractSet := True\<rparr>)
                   exampleWorld))
   \<and> \<not> ranTest (snd (main (exampleArgs\<lparr>listSet := True, testSet := True,
                              extractSet := True\<rparr>) exampleWorld))
   \<and> \<not> ranExtract (snd (main (exampleArgs\<lparr>listSet := True, testSet := True,
                              extractSet := True\<rparr>) exampleWorld))
   \<and> \<not> ranList (snd (main (exampleArgs\<lparr>testSet := True, extractSet := True\<rparr>) exampleWorld))
   \<and> ranTest (snd (main (exampleArgs\<lparr>testSet := True, extractSet := True\<rparr>) exampleWorld))
   \<and> \<not> ranExtract (snd (main (exampleArgs\<lparr>testSet := True, extractSet := True\<rparr>)
                          exampleWorld))
   \<and> \<not> ranList (snd (main exampleArgs exampleWorld))
   \<and> \<not> ranTest (snd (main exampleArgs exampleWorld))
   \<and> ranExtract (snd (main exampleArgs exampleWorld))"
proof -
  let ?l = "exampleArgs\<lparr>listSet := True, testSet := True, extractSet := True\<rparr>"
  let ?t = "exampleArgs\<lparr>testSet := True, extractSet := True\<rparr>"
  have l: "reachesDispatch ?l exampleWorld" "listSet ?l"
    using example_run by (simp_all add: reachesDispatch_def)
  have t: "reachesDispatch ?t exampleWorld" "\<not> listSet ?t" "testSet ?t"
    using example_run by (simp_all add: reachesDispatch_def)
  have x: "reachesDispatch exampleArgs exampleWorld"
    using example_run by (simp add: reachesDispatch_def)
  show ?thesis
    using action_precedence [of ?l exampleWorld] l
      action_precedence [of ?t exampleWorld] t
      action_precedence [of exampleArgs exampleWorld] x example_run(8,9)
    by blast
qed

text \<open>
  Claim C8, as stated, fails: with \<open>--test-progress\<close> the program runs the self
  test of the callback before it looks at the input path, so a path that does not exist
  gives exit code 0 and nothing on standard error.
\<close>

theorem file_not_found_test_progress:
  "positionalArguments (missingArgs\<lparr>testProgressSet := True\<rparr>) = [''/a/b/missing.zip'']
   \<and> \<not> fi_exists exampleWorld ''/a/b/missing.zip''
   \<and> fst (main (missingArgs\<lparr>testProgressSet := True\<rparr>) exampleWorld) = 0
   \<and> standardError (snd (main (missingArgs\<lparr>testProgressSet := True\<rparr>) exampleWorld)) = []"
  by code_simp

text \<open>
  Claim C10, as stated, fails: a run that ends before the dispatch, here on an input
  path that does not exist, runs no action at all.
\<close>

theorem no_action_without_input:
  "\<not> fi_exists exampleWorld ''/a/b/missing.zip''
   \<and> positionalArguments missingArgs = [''/a/b/missing.zip'']
   \<and> \<not> (ranList (snd (main missingArgs exampleWorld))
         \<or> ranTest (snd (main missingArgs exampleWorld))
         \<or> ranExtract (snd (main missingArgs exampleWorld)))"
  by code_simp

section \<open>Properties of the throttle\<close>

text \<open>
  Claim C3, as stated, fails: with a minimum interval of 300 ms the updates of
  \<open>burst\<close> are all invoked, five invocations inside one second, four of them not
  final, where the claim allows 1000 / 300 and the final one.
\<close>

theorem throttle_bound_fails:
  "length (inWindow 1000 (invocations 300 burst)) = 5
   \<and> length (notFinal (inWindow 1000 (invocations 300 burst))) = 4
   \<and> \<not> int (length (inWindow 1000 (invocations 300 burst))) \<le> 1000 div 300 + 1
   \<and> \<not> int (length (inWindow 1000 (invocations 300 burst))) * 300 \<le> 1000 + 300"
  by code_simp

lemma throttle_sub: "set (throttle m l us) \<subseteq> set us"
  by (induction us arbitrary: l) auto

lemma throttle_final:
  "u \<in> set us \<Longrightarrow> updFinal u \<Longrightarrow> u \<in> set (throttle m l us)"
  by (induction us arbitrary: l) auto

lemma room_antitone: "0 < m \<Longrightarrow> a \<le> b \<Longrightarrow> room m t b \<le> room m t a"
proof -
  assume m: "0 < m" and ab: "a \<le> b"
  show ?thesis
  proof (cases "t + 999 < b")
    case True
    then have "room m t b = 0" by (simp add: room_def)
    moreover have "0 \<le> room m t a"
      using m by (simp add: room_def pos_imp_zdiv_nonneg_iff)
    ultimately show ?thesis by simp
  next
    case False
    then have "(t + 999 - b) div m \<le> (t + 999 - a) div m"
      using ab m by (intro zdiv_mono1) auto
    then show ?thesis using False ab by (simp add: room_def)
  qed
qed

lemma room_step:
  assumes "0 < m" "a \<le> x" "x \<le> t + 999"
  shows "1 + room m t (x + m) \<le> room m t a"
proof -
  have ra: "room m t a = (t + 999 - a) div m + 1"
    using assms by (simp add: room_def)
  have mono: "(t + 999 - x) div m \<le> (t + 999 - a) div m"
    using assms by (intro zdiv_mono1) auto
  show ?thesis
  proof (cases "t + 999 < x + m")
    case True
    have "0 \<le> (t + 999 - a) div m"
      using assms by (simp add: pos_imp_zdiv_nonneg_iff)
    then show ?thesis using True ra by (simp add: room_def)
  next
    case False
    have "(t + 999 - (x + m) + m) div m = (t + 999 - (x + m)) div m + 1"
      using assms(1) by (intro div_add_self2) simp
    moreover have "t + 999 - (x + m) + m = t + 999 - x" by simp
    ultimately have "(t + 999 - (x + m)) div m = (t + 999 - x) div m - 1"
      by simp
    then show ?thesis using False ra mono by (simp add: room_def)
  qed
qed


lemma countIn_Cons:
  "countIn t (u # us) =
     (if \<not> updFinal u \<and> t \<le> updNow u \<and> updNow u < t + 1000 then 1 else 0) + countIn t us"
  by (simp add: countIn_def notFinal_def inWindow_def)

lemma countIn_Nil: "countIn t [] = 0"
  by (simp add: countIn_def notFinal_def inWindow_def)

lemma room_nonneg: "0 < m \<Longrightarrow> 0 \<le> room m t a"
  by (simp add: room_def pos_imp_zdiv_nonneg_iff)

lemma throttle_room:
  assumes "0 < m" "sorted (map updNow us)" "\<forall>u \<in> set us. l \<le> updNow u"
  shows "countIn t (throttle m l us) \<le> room m t (max t (l + m))"
  using assms(2,3)
proof (induction us arbitrary: l)
  case Nil
  then show ?case using assms(1) by (simp add: countIn_Nil room_nonneg)
next
  case (Cons u us)
  have srt: "sorted (map updNow us)" using Cons.prems(1) by simp
  have lu: "l \<le> updNow u" using Cons.prems(2) by simp
  show ?case
  proof (cases "updNow u - l < m \<and> \<not> updFinal u")
    case True
    have "countIn t (throttle m l us) \<le> room m t (max t (l + m))"
      using Cons.IH [OF srt] Cons.prems(2) by simp
    then show ?thesis using True by simp
  next
    case False
    have later: "\<forall>v \<in> set us. updNow u \<le> updNow v"
      using Cons.prems(1) by simp
    have ih: "countIn t (throttle m (updNow u) us) \<le> room m t (max t (updNow u + m))"
      using Cons.IH [OF srt later] .
    have thr: "throttle m l (u # us) = u # throttle m (updNow u) us"
      using False by auto
    show ?thesis
    proof (cases "\<not> updFinal u \<and> t \<le> updNow u \<and> updNow u < t + 1000")
      case True
      then have far: "l + m \<le> updNow u" using False by simp
      have mx: "max t (updNow u + m) = updNow u + m"
        using True assms(1) by simp
      have "1 + room m t (updNow u + m) \<le> room m t (max t (l + m))"
        using assms(1) far True by (intro room_step) auto
      then show ?thesis
        using ih True unfolding thr countIn_Cons mx by simp
    next
      case False
      have "room m t (max t (updNow u + m)) \<le> room m t (max t (l + m))"
        using assms(1) lu by (intro room_antitone) auto
      then show ?thesis
        using ih False unfolding thr countIn_Cons by auto
    qed
  qed
qed

lemma room_top: "0 < m \<Longrightarrow> room m t (max t a) \<le> 999 div m + 1"
proof -
  assume m: "0 < m"
  have "(t + 999 - max t a) div m \<le> 999 div m"
    using m by (intro zdiv_mono1) auto
  moreover have "0 \<le> 999 div m" using m by (simp add: pos_imp_zdiv_nonneg_iff)
  ultimately show ?thesis by (simp add: room_def)
qed

text \<open>
  Claim C3, amended: for every sequence of progress updates read from a clock that does
  not run backwards, with a minimum interval above 0, an update is skipped when
  \<open>now - lastCallbackTime\<close> is below the minimum interval unless it is the final
  100% update, which is always invoked; hence in any window of one second the callback
  is invoked for at most \<open>999 div minInterval + 1\<close> updates, the rounded-up quotient
  of 1000 by the minimum interval, beside final updates.
\<close>

theorem throttle_window_bound:
  assumes "0 < minInterval" and "sorted (map updNow us)"
    and "\<forall>u \<in> set us. 0 \<le> updNow u"
  shows "set (invocations minInterval us) \<subseteq> set us
     \<and> (\<forall>u \<in> set us. updFinal u \<longrightarrow> u \<in> set (invocations minInterval us))
     \<and> (\<forall>l u rest. updNow u - l < minInterval \<and> \<not> updFinal u \<longrightarrow>
           throttle minInterval l (u # rest) = throttle minInterval l rest)
     \<and> int (length (notFinal (inWindow t (invocations minInterval us))))
          \<le> 999 div minInterval + 1"
proof -
  have "countIn t (throttle minInterval 0 us) \<le> room minInterval t (max t (0 + minInterval))"
    using assms by (intro throttle_room) auto
  also have "\<dots> \<le> 999 div minInterval + 1"
    using assms(1) by (rule room_top)
  finally have b: "int (length (notFinal (inWindow t (invocations minInterval us))))
          \<le> 999 div minInterval + 1"
    by (simp add: countIn_def invocations_def)
  show ?thesis
    using b throttle_sub [of minInterval 0 us] throttle_final [of _ us minInterval 0]
    by (simp add: invocations_def)
qed

lemma burst_facts:
  "(0::int) < 300" "sorted (map updNow burst)" "\<forall>u \<in> set burst. 0 \<le> updNow u"
  "\<lparr>updNow = 1950, updFinal = True\<rparr> \<in> set burst"
  "updFinal \<lparr>updNow = 1950, updFinal = True\<rparr>"
  "(999::int) div 300 + 1 = 4"
  "length (notFinal (inWindow 1000 (invocations 300 burst))) = 4"
  by code_simp+

text \<open>Witness for C3: the updates \<open>burst\<close> with a minimum interval of 300 ms.\<close>

theorem throttle_window_bound_witness:
  "\<lparr>updNow = 1950, updFinal = True\<rparr> \<in> set (invocations 300 burst)
   \<and> int (length (notFinal (inWindow 1000 (invocations 300 burst)))) \<le> 4
   \<and> length (notFinal (inWindow 1000 (invocations 300 burst))) = 4"
  using throttle_window_bound [OF burst_facts(1-3), of 1000] burst_facts(4-7)
  by auto

end
